theory Spec2Isabelle
  imports Main "HOL-Library.List_Lexorder"
begin

section \<open>Data model of \<^verbatim>\<open>scraper.py\<close>\<close>

text \<open>
  A Python \<^verbatim>\<open>str\<close> is a sequence of Unicode code points, compared
  lexicographically by code point; it is modelled as the list of its code points,
  written as integers, with the lexicographic order on lists.
\<close>

type_synonym ustr = "int list"

definition ascii :: "string \<Rightarrow> ustr" where
  "ascii s = map of_char s"

text \<open>
  Every \<^verbatim>\<open>datetime\<close> of the program carries the one \<^verbatim>\<open>ISRAEL_TZ\<close> object.
  Python compares and subtracts two aware datetimes that share their tzinfo on the
  wall-clock fields alone, so a datetime is modelled by its wall-clock position:
  the number of microseconds since 0001-01-01 00:00.
\<close>

type_synonym datetime = int

text \<open>The dictionaries built at lines 93-99 and 199-205.\<close>

record match =
  home_team :: ustr
  away_team :: ustr
  datetime :: datetime
  venue :: ustr
  source :: ustr

definition BEITAR_KW :: ustr where
  "BEITAR_KW = [1489, 1497, 1514]"

definition HAPOEL_JLM_KW :: ustr where
  "HAPOEL_JLM_KW = [1492, 1508, 1493, 1506, 1500, 32, 1497, 1512, 1493, 1513, 1500, 1497, 1501]"

definition DEFAULT_HOUR :: int where
  "DEFAULT_HOUR = 20"

definition DEFAULT_MINUTE :: int where
  "DEFAULT_MINUTE = 30"

text \<open>\<^verbatim>\<open>kw in s\<close> on strings: \<^verbatim>\<open>kw\<close> occurs in \<^verbatim>\<open>s\<close> as a contiguous run.\<close>

fun starts_with :: "ustr \<Rightarrow> ustr \<Rightarrow> bool" where
  "starts_with [] s = True"
| "starts_with (k # ks) [] = False"
| "starts_with (k # ks) (c # cs) = (k = c \<and> starts_with ks cs)"

fun contains :: "ustr \<Rightarrow> ustr \<Rightarrow> bool" where
  "contains kw [] = (kw = [])"
| "contains kw (c # cs) = (starts_with kw (c # cs) \<or> contains kw cs)"

section \<open>The reconciler: \<^verbatim>\<open>deduplicate_matches\<close>\<close>

text \<open>\<^verbatim>\<open>tuple(sorted([m["home_team"], m["away_team"]]))\<close>\<close>

definition teams :: "match \<Rightarrow> ustr list" where
  "teams m = sort [home_team m, away_team m]"

text \<open>
  \<^verbatim>\<open>(a - b).days\<close>: a \<^verbatim>\<open>timedelta\<close> is normalised with its seconds and
  microseconds non-negative, so \<^verbatim>\<open>days\<close> is the floor of the difference in days.
\<close>

definition DAY_US :: int where
  "DAY_US = 86400000000"

definition timedelta_days :: "datetime \<Rightarrow> datetime \<Rightarrow> int" where
  "timedelta_days a b = (a - b) div DAY_US"

text \<open>The test of line 225.\<close>

definition same_fixture :: "match \<Rightarrow> match \<Rightarrow> bool" where
  "same_fixture m existing =
     (teams m = teams existing \<and> \<bar>timedelta_days (datetime m) (datetime existing)\<bar> \<le> 3)"

text \<open>Lines 227-231: what slot \<^verbatim>\<open>j\<close> holds after a duplicate was detected there.\<close>

definition keep_or_replace :: "match \<Rightarrow> match \<Rightarrow> match" where
  "keep_or_replace m existing =
     (let home_is_hapoel = contains HAPOEL_JLM_KW (home_team existing) in
      if home_is_hapoel \<and> source m = ascii ''hapoel'' then m
      else if \<not> home_is_hapoel \<and> source m = ascii ''beitar'' then m
      else existing)"

text \<open>
  The inner loop of lines 223-233 over \<^verbatim>\<open>unique\<close>: \<open>None\<close> when it ends with
  \<^verbatim>\<open>duplicate = False\<close>, otherwise the updated \<^verbatim>\<open>unique\<close> at the \<^verbatim>\<open>break\<close>.
\<close>

fun find_duplicate :: "match \<Rightarrow> match list \<Rightarrow> match list option" where
  "find_duplicate m [] = None"
| "find_duplicate m (existing # rest) =
     (if same_fixture m existing then Some (keep_or_replace m existing # rest)
      else map_option ((#) existing) (find_duplicate m rest))"

text \<open>One iteration of the outer loop, lines 220-235.\<close>

definition dedup_step :: "match list \<Rightarrow> match \<Rightarrow> match list" where
  "dedup_step unique m =
     (case find_duplicate m unique of Some unique' \<Rightarrow> unique' | None \<Rightarrow> unique @ [m])"

text \<open>Python's \<^verbatim>\<open>sorted\<close> is stable, as \<^const>\<open>sort_key\<close> is.\<close>

definition deduplicate_matches :: "match list \<Rightarrow> match list" where
  "deduplicate_matches all_matches =
     (let sorted_matches = sort_key datetime all_matches;
          unique = foldl dedup_step [] sorted_matches
      in sort_key datetime unique)"


text \<open>Predicates used to state the properties of the reconciler.\<close>

definition far_apart :: "match \<Rightarrow> match \<Rightarrow> bool" where
  "far_apart a b = (4 * DAY_US \<le> \<bar>datetime a - datetime b\<bar>)"

definition spaced :: "match list \<Rightarrow> bool" where
  "spaced u =
     (distinct u \<and> (\<forall>x\<in>set u. \<forall>y\<in>set u. x \<noteq> y \<and> teams x = teams y \<longrightarrow> far_apart x y))"

definition bounded_by :: "datetime \<Rightarrow> match list \<Rightarrow> bool" where
  "bounded_by t u = (\<forall>x\<in>set u. datetime x \<le> t)"

definition unmatched :: "match \<Rightarrow> match list \<Rightarrow> bool" where
  "unmatched x ms = (\<forall>y\<in>set ms. y \<noteq> x \<longrightarrow> \<not> same_fixture x y \<and> \<not> same_fixture y x)"

section \<open>Library functions of the Python runtime\<close>

datatype error = ValueError | OverflowError

definition and_then :: "error + 'a \<Rightarrow> ('a \<Rightarrow> error + 'b) \<Rightarrow> error + 'b" where
  "and_then r f = (case r of Inl e \<Rightarrow> Inl e | Inr v \<Rightarrow> f v)"

subsection \<open>Character classes\<close>

text \<open>
  \<^verbatim>\<open>\d\<close> of \<^verbatim>\<open>re\<close> on a \<^verbatim>\<open>str\<close> pattern and \<^verbatim>\<open>int()\<close> accept every code point of
  category Nd, and \<^verbatim>\<open>\s\<close> every white-space code point. The tables are those of
  Unicode 14.0 (CPython 3.11): the decimal digits come in runs of ten, listed by the code
  point of their zero.
\<close>

definition ND_ZEROS :: "int list" where
  "ND_ZEROS = [48, 1632, 1776, 1984, 2406, 2534, 2662, 2790, 2918, 3046, 3174, 3302, 3430,
     3558, 3664, 3792, 3872, 4160, 4240, 6112, 6160, 6470, 6608, 6784, 6800, 6992, 7088, 7232,
     7248, 42528, 43216, 43264, 43472, 43504, 43600, 44016, 65296, 66720, 68912, 69734, 69872,
     69942, 70096, 70384, 70736, 70864, 71248, 71360, 71472, 71904, 72016, 72784, 73040, 73120,
     92768, 92864, 93008, 120782, 120792, 120802, 120812, 120822, 123200, 123632, 125264,
     130032]"

definition WHITE_SPACE :: "int list" where
  "WHITE_SPACE = [9, 10, 11, 12, 13, 28, 29, 30, 31, 32, 133, 160, 5760, 8192, 8193, 8194,
     8195, 8196, 8197, 8198, 8199, 8200, 8201, 8202, 8232, 8233, 8239, 8287, 12288]"

definition decimal :: "int \<Rightarrow> int option" where
  "decimal c = map_option (\<lambda>z. c - z) (find (\<lambda>z. z \<le> c \<and> c < z + 10) ND_ZEROS)"

definition is_digit :: "int \<Rightarrow> bool" where
  "is_digit c = (decimal c \<noteq> None)"

definition whitespace :: "int \<Rightarrow> bool" where
  "whitespace c = (c \<in> set WHITE_SPACE)"

subsection \<open>\<^verbatim>\<open>int(s)\<close> on a string\<close>

text \<open>
  CPython first maps the string to ASCII: a code point below 127 stays, a white-space one
  becomes a blank, a decimal digit its ASCII digit, and anything else makes the literal
  invalid.
\<close>

definition to_ascii :: "int \<Rightarrow> int option" where
  "to_ascii c =
     (if c < 127 then Some c
      else if whitespace c then Some 32
      else map_option (\<lambda>d. 48 + d) (decimal c))"

definition c_space :: "int \<Rightarrow> bool" where
  "c_space c = (c = 32 \<or> (9 \<le> c \<and> c \<le> 13))"

definition c_digit :: "int \<Rightarrow> bool" where
  "c_digit c = (48 \<le> c \<and> c \<le> 57)"

text \<open>Underscores may only stand singly between two digits.\<close>

fun underscores_ok :: "ustr \<Rightarrow> bool" where
  "underscores_ok [] = False"
| "underscores_ok [c] = c_digit c"
| "underscores_ok (c # d # cs) =
     (if c_digit c then underscores_ok (d # cs)
      else c_digit d \<and> underscores_ok (d # cs))"

definition MAX_STR_DIGITS :: int where
  "MAX_STR_DIGITS = 4300"

text \<open>
  The base-10 literal: blanks, an optional sign, digits with single underscores between
  them, blanks. More than 4300 digits are refused.
\<close>

definition parse_literal :: "ustr \<Rightarrow> error + int" where
  "parse_literal s =
     (let s1 = dropWhile c_space s;
          negative = (take 1 s1 = [45]);
          s2 = (if take 1 s1 = [43] \<or> take 1 s1 = [45] then drop 1 s1 else s1);
          body = takeWhile (\<lambda>c. c_digit c \<or> c = 95) s2;
          trailing = dropWhile (\<lambda>c. c_digit c \<or> c = 95) s2;
          ds = filter c_digit body
      in if take 1 body = [95] \<or> \<not> underscores_ok body \<or> \<not> list_all c_space trailing
         then Inl ValueError
         else if MAX_STR_DIGITS < int (length ds) then Inl ValueError
         else let v = foldl (\<lambda>a c. 10 * a + (c - 48)) 0 ds
              in Inr (if negative then - v else v))"

definition py_int :: "ustr \<Rightarrow> error + int" where
  "py_int s =
     (if list_all (\<lambda>c. to_ascii c \<noteq> None) s then parse_literal (map (the \<circ> to_ascii) s)
      else Inl ValueError)"

subsection \<open>\<^verbatim>\<open>s.split(sep)\<close> with a one-character separator\<close>

fun split_on :: "int \<Rightarrow> ustr \<Rightarrow> ustr list" where
  "split_on sep [] = [[]]"
| "split_on sep (c # cs) =
     (if c = sep then [] # split_on sep cs
      else (case split_on sep cs of p # ps \<Rightarrow> (c # p) # ps | [] \<Rightarrow> [[c]]))"

subsection \<open>The \<^verbatim>\<open>datetime\<close> constructor\<close>

definition is_leap :: "int \<Rightarrow> bool" where
  "is_leap y = (y mod 4 = 0 \<and> (y mod 100 \<noteq> 0 \<or> y mod 400 = 0))"

definition days_in_month :: "int \<Rightarrow> int \<Rightarrow> int" where
  "days_in_month y m =
     (if m = 2 then (if is_leap y then 29 else 28)
      else if m = 4 \<or> m = 6 \<or> m = 9 \<or> m = 11 then 30 else 31)"

definition days_before_year :: "int \<Rightarrow> int" where
  "days_before_year y = (y - 1) * 365 + (y - 1) div 4 - (y - 1) div 100 + (y - 1) div 400"

definition days_before_month :: "int \<Rightarrow> int \<Rightarrow> int" where
  "days_before_month y m =
     [0, 31, 59, 90, 120, 151, 181, 212, 243, 273, 304, 334] ! nat (m - 1)
       + (if 2 < m \<and> is_leap y then 1 else 0)"

definition ymd2ord :: "int \<Rightarrow> int \<Rightarrow> int \<Rightarrow> int" where
  "ymd2ord y m d = days_before_year y + days_before_month y m + d"

definition c_int :: "int \<Rightarrow> bool" where
  "c_int v = (- 2147483648 \<le> v \<and> v \<le> 2147483647)"

text \<open>
  \<^verbatim>\<open>datetime(year, month, day, hour, minute, tzinfo=ISRAEL_TZ)\<close>: the arguments are
  converted to C integers, then checked against their ranges.
\<close>

definition datetime_new :: "int \<Rightarrow> int \<Rightarrow> int \<Rightarrow> int \<Rightarrow> int \<Rightarrow> error + datetime" where
  "datetime_new y m d hour minute =
     (if \<not> (c_int y \<and> c_int m \<and> c_int d \<and> c_int hour \<and> c_int minute) then Inl OverflowError
      else if y < 1 \<or> 9999 < y then Inl ValueError
      else if m < 1 \<or> 12 < m then Inl ValueError
      else if d < 1 \<or> days_in_month y m < d then Inl ValueError
      else if hour < 0 \<or> 23 < hour then Inl ValueError
      else if minute < 0 \<or> 59 < minute then Inl ValueError
      else Inr ((((ymd2ord y m d - 1) * 24 + hour) * 60 + minute) * 60000000))"

text \<open>The hour and minute fields of a datetime.\<close>

definition hour_of :: "datetime \<Rightarrow> int" where
  "hour_of t = (t div 3600000000) mod 24"

definition minute_of :: "datetime \<Rightarrow> int" where
  "minute_of t = (t div 60000000) mod 60"

subsection \<open>Fixed-width regular expressions\<close>

text \<open>A run of \<^verbatim>\<open>\d\<close> and literal characters, matched at the start of a string;
  the result is what follows the match.\<close>

datatype atom = Digit | Lit int

fun match_atoms :: "atom list \<Rightarrow> ustr \<Rightarrow> ustr option" where
  "match_atoms [] s = Some s"
| "match_atoms (a # as) [] = None"
| "match_atoms (Digit # as) (c # cs) = (if is_digit c then match_atoms as cs else None)"
| "match_atoms (Lit l # as) (c # cs) = (if c = l then match_atoms as cs else None)"

text \<open>\<^verbatim>\<open>\d{2}/\d{2}/\d{2}\<close>, \<^verbatim>\<open>\d{2}/\d{2}/\d{4}\<close> and \<^verbatim>\<open>\d{2}:\d{2}\<close>\<close>

definition RE_DATE2 :: "atom list" where
  "RE_DATE2 = [Digit, Digit, Lit 47, Digit, Digit, Lit 47, Digit, Digit]"

definition RE_DATE4 :: "atom list" where
  "RE_DATE4 = [Digit, Digit, Lit 47, Digit, Digit, Lit 47, Digit, Digit, Digit, Digit]"

definition RE_TIME :: "atom list" where
  "RE_TIME = [Digit, Digit, Lit 58, Digit, Digit]"

section \<open>Shared steps of the two parsers\<close>

text \<open>Lines 67-68 and 175-176.\<close>

definition is_derby :: "ustr \<Rightarrow> ustr \<Rightarrow> bool" where
  "is_derby home_name away_name =
     ((contains BEITAR_KW home_name \<and> contains HAPOEL_JLM_KW away_name) \<or>
      (contains HAPOEL_JLM_KW home_name \<and> contains BEITAR_KW away_name))"

text \<open>Lines 83-84 and 187-188.\<close>

definition tbd_default :: "int \<times> int \<Rightarrow> int \<times> int" where
  "tbd_default hm = (if fst hm < 10 then (DEFAULT_HOUR, DEFAULT_MINUTE) else hm)"

text \<open>\<^verbatim>\<open>hour, minute = map(int, s.split(":"))\<close>: the unpacking fails unless there are
  exactly two parts.\<close>

definition int_pair :: "ustr \<Rightarrow> error + int \<times> int" where
  "int_pair s =
     (case split_on 58 s of
        [a, b] \<Rightarrow> and_then (py_int a) (\<lambda>hour. and_then (py_int b) (\<lambda>minute. Inr (hour, minute)))
      | _ \<Rightarrow> Inl ValueError)"

text \<open>\<^verbatim>\<open>day, month, year = s.split("/")\<close>\<close>

definition split_date :: "ustr \<Rightarrow> error + ustr \<times> ustr \<times> ustr" where
  "split_date s =
     (case split_on 47 s of [day, month, year] \<Rightarrow> Inr (day, month, year) | _ \<Rightarrow> Inl ValueError)"

section \<open>Parser A: \<^verbatim>\<open>fetch_beitar_matches\<close>\<close>

text \<open>
  What the loop reads from one \<^verbatim>\<open>game_list_item\<close> element: the \<^verbatim>\<open>teams_names\<close>
  element if there is one, with the stripped texts of its \<^verbatim>\<open>home\<close> and \<^verbatim>\<open>away\<close>
  elements, and the stripped text of the \<^verbatim>\<open>game_info\<close> element.
\<close>

record teams_div =
  home :: "ustr option"
  away :: "ustr option"

record game_list_item =
  teams_names :: "teams_div option"
  game_info :: "ustr option"

text \<open>\<^verbatim>\<open>el.get_text(strip=True) if el else ""\<close>\<close>

definition text_or_empty :: "ustr option \<Rightarrow> ustr" where
  "text_or_empty el = (case el of Some t \<Rightarrow> t | None \<Rightarrow> [])"

text \<open>
  \<^verbatim>\<open>(\d{2}/\d{2}/\d{2})\s*->\s*(\d{2}:\d{2})\<close> matched at the start of a string. No
  white-space character is \<^verbatim>\<open>-\<close> or a digit, so the greedy \<^verbatim>\<open>\s*\<close> never gives
  a character back.
\<close>

definition date_match_at :: "ustr \<Rightarrow> (ustr \<times> ustr) option" where
  "date_match_at s =
     (case match_atoms RE_DATE2 s of
        None \<Rightarrow> None
      | Some r1 \<Rightarrow>
          (case match_atoms [Lit 45, Lit 62] (dropWhile whitespace r1) of
             None \<Rightarrow> None
           | Some r2 \<Rightarrow>
               (let r3 = dropWhile whitespace r2 in
                case match_atoms RE_TIME r3 of
                  None \<Rightarrow> None
                | Some r4 \<Rightarrow> Some (take 8 s, take 5 r3))))"

text \<open>\<^verbatim>\<open>re.search\<close>: the leftmost position where the pattern matches.\<close>

fun date_search :: "ustr \<Rightarrow> (ustr \<times> ustr) option" where
  "date_search [] = date_match_at []"
| "date_search (c # cs) =
     (case date_match_at (c # cs) of Some g \<Rightarrow> Some g | None \<Rightarrow> date_search cs)"

text \<open>Lines 66-70.\<close>

definition beitar_included :: "ustr \<Rightarrow> ustr \<Rightarrow> bool" where
  "beitar_included home_name away_name =
     (let is_beitar_home = contains BEITAR_KW home_name
      in \<not> (\<not> is_beitar_home \<and> \<not> is_derby home_name away_name))"

text \<open>Lines 81-84.\<close>

definition beitar_time :: "ustr \<Rightarrow> error + int \<times> int" where
  "beitar_time time_part = and_then (int_pair time_part) (\<lambda>hm. Inr (tbd_default hm))"

text \<open>Lines 79-88.\<close>

definition beitar_kickoff :: "ustr \<Rightarrow> ustr \<Rightarrow> error + datetime" where
  "beitar_kickoff date_part time_part =
     and_then (split_date date_part) (\<lambda>(day, month, year).
     and_then (beitar_time time_part) (\<lambda>(hour, minute).
     and_then (py_int year) (\<lambda>y.
     and_then (py_int month) (\<lambda>mo.
     and_then (py_int day) (\<lambda>d.
       datetime_new (2000 + y) mo d hour minute)))))"

text \<open>
  The body of the loop, lines 56-99: \<open>Inr None\<close> for \<^verbatim>\<open>continue\<close>, \<open>Inr (Some m)\<close>
  for the appended dictionary, \<open>Inl\<close> for an exception.
\<close>

definition beitar_item :: "datetime \<Rightarrow> game_list_item \<Rightarrow> error + match option" where
  "beitar_item now item =
     (case teams_names item of
        None \<Rightarrow> Inr None
      | Some teams_div \<Rightarrow>
          (let home_name = text_or_empty (home teams_div);
               away_name = text_or_empty (away teams_div)
           in if \<not> beitar_included home_name away_name then Inr None
              else (let info_text = text_or_empty (game_info item) in
                case date_search info_text of
                  None \<Rightarrow> Inr None
                | Some (date_part, time_part) \<Rightarrow>
                    and_then (beitar_kickoff date_part time_part) (\<lambda>match_dt.
                      if match_dt < now then Inr None
                      else Inr (Some \<lparr>home_team = home_name, away_team = away_name,
                                       datetime = match_dt, venue = ascii ''Teddy Stadium'',
                                       source = ascii ''beitar''\<rparr>)))))"

fun beitar_loop :: "datetime \<Rightarrow> game_list_item list \<Rightarrow> match list \<Rightarrow> error + match list" where
  "beitar_loop now [] matches = Inr matches"
| "beitar_loop now (item # items) matches =
     (case beitar_item now item of
        Inl e \<Rightarrow> Inl e
      | Inr None \<Rightarrow> beitar_loop now items matches
      | Inr (Some m) \<Rightarrow> beitar_loop now items (matches @ [m]))"

text \<open>The function is given the clock reading of line 49 and the elements found at line 55.\<close>

definition fetch_beitar_matches :: "datetime \<Rightarrow> game_list_item list \<Rightarrow> error + match list" where
  "fetch_beitar_matches now items = beitar_loop now items []"

section \<open>Parser B: \<^verbatim>\<open>fetch_hapoel_matches\<close>\<close>

text \<open>The line that opens the section of upcoming matches, and the tuples of lines 133,
  143, 146 and 162.\<close>

definition UPCOMING :: ustr where
  "UPCOMING = [1502, 1513, 1495, 1511, 1497, 1501, 32, 1511, 1512, 1493, 1489, 1497, 1501]"

definition FINISHED :: ustr where
  "FINISHED = [1502, 1513, 1495, 1511, 1497, 1501, 32, 1513, 1492, 1505, 1514, 1497, 1497,
     1502, 1493]"

definition COL_TIME :: ustr where
  "COL_TIME = [1513, 1506, 1492]"

definition COL_VENUE :: ustr where
  "COL_VENUE = [1502, 1490, 1512, 1513]"

definition COL_GUEST :: ustr where
  "COL_GUEST = [1488, 1493, 1512, 1495, 1514]"

definition COL_HOME :: ustr where
  "COL_HOME = [1502, 1488, 1512, 1495, 1514]"

definition COL_DATE :: ustr where
  "COL_DATE = [1514, 1488, 1512, 1497, 1498]"

definition COL_RESULT :: ustr where
  "COL_RESULT = [1514, 1493, 1510, 1488, 1492]"

definition TEDDY_KW :: ustr where
  "TEDDY_KW = [1496, 1491, 1497]"

definition HEADER_ROW :: "ustr list" where
  "HEADER_ROW = [COL_TIME, COL_VENUE, COL_GUEST, COL_HOME, COL_DATE]"

definition SECTION_STOP :: "ustr list" where
  "SECTION_STOP = [FINISHED, COL_TIME, COL_RESULT]"

definition FOOTER_STOP :: "ustr list" where
  "FOOTER_STOP = [COL_GUEST, COL_HOME, COL_DATE]"

definition WALK_STOP :: "ustr list" where
  "WALK_STOP = [COL_TIME, COL_VENUE, COL_GUEST, COL_HOME, COL_DATE, UPCOMING]"

text \<open>\<^verbatim>\<open>lines.index(x)\<close>, with \<open>None\<close> for the \<^verbatim>\<open>ValueError\<close> caught at line 127.\<close>

fun index_of :: "ustr \<Rightarrow> ustr list \<Rightarrow> nat option" where
  "index_of x [] = None"
| "index_of x (l # ls) = (if l = x then Some 0 else map_option Suc (index_of x ls))"

text \<open>
  \<^verbatim>\<open>re.match(r"(\d{2}/\d{2}/\d{4})$", line)\<close>: \<^verbatim>\<open>$\<close> holds at the end of the
  string and before a newline that ends it.
\<close>

definition date_line :: "ustr \<Rightarrow> bool" where
  "date_line line =
     (case match_atoms RE_DATE4 line of None \<Rightarrow> False | Some r \<Rightarrow> r = [] \<or> r = [10])"

text \<open>The loop of lines 132-134.\<close>

function skip_header :: "ustr list \<Rightarrow> nat \<Rightarrow> nat" where
  "skip_header lines i =
     (if i < length lines \<and> lines ! i \<in> set HEADER_ROW then skip_header lines (i + 1) else i)"
  by pat_completeness auto
termination
  by (relation "measure (\<lambda>(lines, i). length lines - i)") auto

declare skip_header.simps [simp del]

text \<open>
  The backward walk of lines 156-165, with the index \<^verbatim>\<open>j\<close> of the source equal to
  the argument minus one; the first equation is \<^verbatim>\<open>j = -1\<close>.
\<close>

fun walk_back :: "ustr list \<Rightarrow> nat \<Rightarrow> nat \<Rightarrow> ustr list \<Rightarrow> ustr list" where
  "walk_back lines start_idx 0 preceding = preceding"
| "walk_back lines start_idx (Suc j) preceding =
     (if start_idx \<le> j \<and> length preceding < 4 then
        (let prev = lines ! j in
         if date_line prev then preceding
         else if prev \<in> set WALK_STOP then preceding
         else walk_back lines start_idx j (prev # preceding))
      else preceding)"

text \<open>\<^verbatim>\<open>preceding[-n] if len(preceding) >= n else ""\<close>\<close>

definition slot :: "ustr list \<Rightarrow> nat \<Rightarrow> ustr" where
  "slot preceding n = (if n \<le> length preceding then preceding ! (length preceding - n) else [])"

text \<open>Lines 173-177.\<close>

definition hapoel_included :: "ustr \<Rightarrow> ustr \<Rightarrow> ustr \<Rightarrow> bool" where
  "hapoel_included home_t guest_t venue_t =
     (let is_hapoel_home = contains HAPOEL_JLM_KW home_t;
          is_teddy = contains TEDDY_KW venue_t
      in (is_hapoel_home \<and> is_teddy) \<or> is_derby home_t guest_t)"

text \<open>Lines 182-188; \<^verbatim>\<open>re.match(r"\d{2}:\d{2}", time_str)\<close> is a match at the start of
  the string, with nothing asked of what follows.\<close>

definition hapoel_time :: "ustr \<Rightarrow> error + int \<times> int" where
  "hapoel_time time_str =
     and_then
       (if time_str \<noteq> [] \<and> match_atoms RE_TIME time_str \<noteq> None then int_pair time_str
        else Inr (DEFAULT_HOUR, DEFAULT_MINUTE))
       (\<lambda>hm. Inr (tbd_default hm))"

text \<open>Lines 181-193.\<close>

definition hapoel_kickoff :: "ustr \<Rightarrow> ustr \<Rightarrow> error + datetime" where
  "hapoel_kickoff date_str time_str =
     and_then (split_date date_str) (\<lambda>(day, month, year).
     and_then (hapoel_time time_str) (\<lambda>(hour, minute).
     and_then (py_int year) (\<lambda>y.
     and_then (py_int month) (\<lambda>mo.
     and_then (py_int day) (\<lambda>d.
       datetime_new y mo d hour minute)))))"

text \<open>
  Lines 153-205, for a date line at index \<^verbatim>\<open>i\<close>: \<open>Inr None\<close> when the row is
  skipped, \<open>Inr (Some m)\<close> for the appended dictionary, \<open>Inl\<close> for an exception.
\<close>

definition hapoel_row :: "datetime \<Rightarrow> ustr list \<Rightarrow> nat \<Rightarrow> nat \<Rightarrow> error + match option" where
  "hapoel_row now lines start_idx i =
     (let date_str = take 10 (lines ! i);
          preceding = walk_back lines start_idx i [];
          home_t = slot preceding 1;
          guest_t = slot preceding 2;
          venue_t = slot preceding 3;
          time_str = slot preceding 4
      in if \<not> hapoel_included home_t guest_t venue_t then Inr None
         else
           and_then (hapoel_kickoff date_str time_str) (\<lambda>match_dt.
             if match_dt < now then Inr None
             else Inr (Some \<lparr>home_team = home_t, away_team = guest_t,
                              datetime = match_dt, venue = ascii ''Teddy Stadium'',
                              source = ascii ''hapoel''\<rparr>)))"

text \<open>The loop of lines 139-207.\<close>

function hapoel_loop ::
  "datetime \<Rightarrow> ustr list \<Rightarrow> nat \<Rightarrow> nat \<Rightarrow> match list \<Rightarrow> error + match list" where
  "hapoel_loop now lines start_idx i matches =
     (if i < length lines then
        (let line = lines ! i in
         if line \<in> set SECTION_STOP then Inr matches
         else if line \<in> set FOOTER_STOP then Inr matches
         else if date_line line then
           (case hapoel_row now lines start_idx i of
              Inl e \<Rightarrow> Inl e
            | Inr None \<Rightarrow> hapoel_loop now lines start_idx (i + 1) matches
            | Inr (Some m) \<Rightarrow> hapoel_loop now lines start_idx (i + 1) (matches @ [m]))
         else hapoel_loop now lines start_idx (i + 1) matches)
      else Inr matches)"
  by pat_completeness auto
termination
  by (relation "measure (\<lambda>(now, lines, start_idx, i, matches). length lines - i)") auto

declare hapoel_loop.simps [simp del]

text \<open>The function is given the clock reading of line 122 and the lines of line 119.\<close>

definition fetch_hapoel_matches :: "datetime \<Rightarrow> ustr list \<Rightarrow> error + match list" where
  "fetch_hapoel_matches now lines =
     (case index_of UPCOMING lines of
        None \<Rightarrow> Inr []
      | Some start_idx \<Rightarrow>
          hapoel_loop now lines start_idx (skip_header lines (start_idx + 1)) [])"

section \<open>The pipeline of \<^verbatim>\<open>main\<close>\<close>

text \<open>Lines 275-282: both parsers, each with its own clock reading, then the reconciler.\<close>

definition main_matches ::
  "datetime \<Rightarrow> game_list_item list \<Rightarrow> datetime \<Rightarrow> ustr list \<Rightarrow> error + match list" where
  "main_matches now_a items now_b lines =
     and_then (fetch_beitar_matches now_a items) (\<lambda>beitar.
     and_then (fetch_hapoel_matches now_b lines) (\<lambda>hapoel.
       Inr (deduplicate_matches (beitar @ hapoel))))"

section \<open>Example fixtures\<close>

text \<open>
  The derby of 2025-03-01 20:30 as the Beitar site lists it, the same derby as the Hapoel
  site lists it a day later at 18:00 with home and away exchanged, the return derby ten
  days after the first, and another home match of Beitar an hour after the first derby.
\<close>

definition derby_by_beitar :: match where
  "derby_by_beitar = \<lparr>home_team = BEITAR_KW, away_team = HAPOEL_JLM_KW,
     datetime = 63876457800000000, venue = ascii ''Teddy Stadium'', source = ascii ''beitar''\<rparr>"

definition derby_by_hapoel :: match where
  "derby_by_hapoel = \<lparr>home_team = HAPOEL_JLM_KW, away_team = BEITAR_KW,
     datetime = 63876535200000000, venue = ascii ''Teddy Stadium'', source = ascii ''hapoel''\<rparr>"

definition return_derby :: match where
  "return_derby = \<lparr>home_team = HAPOEL_JLM_KW, away_team = BEITAR_KW,
     datetime = 63877321800000000, venue = ascii ''Teddy Stadium'', source = ascii ''hapoel''\<rparr>"

definition other_match :: match where
  "other_match = \<lparr>home_team = BEITAR_KW, away_team = ascii ''Maccabi'',
     datetime = 63876461400000000, venue = ascii ''Teddy Stadium'', source = ascii ''beitar''\<rparr>"

text \<open>
  A derby listed by the Beitar site with Hapoel as the home team, on 01/01/30 at 19:30,
  and that kickoff as a datetime.
\<close>

definition derby_item :: game_list_item where
  "derby_item = \<lparr>teams_names = Some \<lparr>home = Some HAPOEL_JLM_KW, away = Some BEITAR_KW\<rparr>,
     game_info = Some (ascii ''01/01/30 -> 19:30'')\<rparr>"

definition kickoff_2030 :: datetime where
  "kickoff_2030 = 64029123000000000"

text \<open>The same element with the placeholder time \<^verbatim>\<open>01:59\<close>.\<close>

definition derby_item_tbd :: game_list_item where
  "derby_item_tbd = \<lparr>teams_names = Some \<lparr>home = Some HAPOEL_JLM_KW, away = Some BEITAR_KW\<rparr>,
     game_info = Some (ascii ''01/01/30 -> 01:59'')\<rparr>"

text \<open>The fixtures that the parsers build from these inputs.\<close>

definition derby_fixture :: match where
  "derby_fixture = \<lparr>home_team = HAPOEL_JLM_KW, away_team = BEITAR_KW, datetime = kickoff_2030,
     venue = ascii ''Teddy Stadium'', source = ascii ''beitar''\<rparr>"

definition tbd_fixture :: match where
  "tbd_fixture = \<lparr>home_team = HAPOEL_JLM_KW, away_team = ascii ''Maccabi'',
     datetime = kickoff_2030 + 3600000000, venue = ascii ''Teddy Stadium'',
     source = ascii ''hapoel''\<rparr>"



text \<open>
  Lines of the Hapoel page: a home match at Teddy, and the same derby with a venue other
  than Teddy; the same rows with the times \<^verbatim>\<open>01:59\<close> and \<^verbatim>\<open>19:30:00\<close>; and a page
  without the section of upcoming matches.
\<close>

definition hapoel_page :: "ustr list" where
  "hapoel_page = [UPCOMING, COL_TIME, COL_VENUE, COL_GUEST, COL_HOME, COL_DATE,
     ascii ''19:30'', TEDDY_KW, ascii ''Maccabi'', HAPOEL_JLM_KW, ascii ''01/01/2030'',
     ascii ''19:30'', ascii ''Bloomfield'', BEITAR_KW, HAPOEL_JLM_KW, ascii ''08/01/2030'',
     FINISHED, ascii ''20:00'', TEDDY_KW, ascii ''Maccabi'', HAPOEL_JLM_KW, ascii ''01/01/2020'']"

definition hapoel_page_tbd :: "ustr list" where
  "hapoel_page_tbd = [UPCOMING, ascii ''01:59'', TEDDY_KW, ascii ''Maccabi'', HAPOEL_JLM_KW,
     ascii ''01/01/2030'']"

definition hapoel_page_seconds :: "ustr list" where
  "hapoel_page_seconds = [UPCOMING, ascii ''19:30:00'', TEDDY_KW, ascii ''Maccabi'',
     HAPOEL_JLM_KW, ascii ''01/01/2030'']"

definition hapoel_page_no_section :: "ustr list" where
  "hapoel_page_no_section = [FINISHED, ascii ''20:00'', TEDDY_KW, ascii ''Maccabi'',
     HAPOEL_JLM_KW, ascii ''01/01/2020'']"

section \<open>Properties of the reconciler\<close>

lemma same_fixture_refl: "same_fixture m m"
  by (simp add: same_fixture_def timedelta_days_def)

lemma same_fixture_window:
  "same_fixture m e \<longleftrightarrow> teams m = teams e \<and> - 3 * DAY_US \<le> datetime m - datetime e \<and> datetime m - datetime e < 4 * DAY_US"
  unfolding same_fixture_def timedelta_days_def DAY_US_def by auto

lemma within_three_days_same_fixture:
  "teams m = teams e \<Longrightarrow> \<bar>datetime m - datetime e\<bar> \<le> 3 * DAY_US \<Longrightarrow> same_fixture m e"
  by (auto simp: same_fixture_window DAY_US_def)

lemma find_duplicate_None: "find_duplicate m u = None \<longleftrightarrow> (\<forall>e\<in>set u. \<not> same_fixture m e)"
  by (induction u) auto

lemma find_duplicate_Some:
  "find_duplicate m u = Some u' \<Longrightarrow>
     \<exists>pre e post. u = pre @ e # post \<and> (\<forall>x\<in>set pre. \<not> same_fixture m x) \<and> same_fixture m e
        \<and> u' = pre @ keep_or_replace m e # post"
proof (induction u arbitrary: u')
  case Nil
  then show ?case by simp
next
  case (Cons a u)
  show ?case
  proof (cases "same_fixture m a")
    case True
    with Cons.prems have "u' = keep_or_replace m a # u" by simp
    with True show ?thesis by (intro exI[of _ "[]"] exI[of _ a] exI[of _ u]) simp
  next
    case False
    with Cons.prems obtain r where r: "find_duplicate m u = Some r" "u' = a # r" by auto
    from Cons.IH[OF r(1)] obtain pre e post where
      "u = pre @ e # post" "\<forall>x\<in>set pre. \<not> same_fixture m x" "same_fixture m e" "r = pre @ keep_or_replace m e # post"
      by blast
    with False r(2) show ?thesis
      by (intro exI[of _ "a # pre"] exI[of _ e] exI[of _ post]) simp
  qed
qed

lemma keep_or_replace_cases: "keep_or_replace m e = m \<or> keep_or_replace m e = e"
  by (simp add: keep_or_replace_def Let_def)

lemma spaced_append_new:
  assumes "spaced u" "bounded_by (datetime m) u" "\<forall>e\<in>set u. \<not> same_fixture m e"
  shows "spaced (u @ [m])"
proof -
  have "m \<notin> set u" using assms(3) same_fixture_refl by blast
  moreover have "far_apart x m \<and> far_apart m x" if "x \<in> set u" "teams x = teams m" for x
  proof -
    have "datetime x \<le> datetime m" using assms(2) that(1) by (simp add: bounded_by_def)
    moreover have "\<not> same_fixture m x" using assms(3) that(1) by blast
    ultimately show ?thesis using that(2) by (auto simp: same_fixture_window far_apart_def)
  qed
  ultimately show ?thesis using assms(1) unfolding spaced_def by auto
qed

lemma spaced_replace:
  assumes sp: "spaced (pre @ e # post)" and bd: "bounded_by (datetime m) (pre @ e # post)"
    and pre: "\<forall>x\<in>set pre. \<not> same_fixture m x" and dup: "same_fixture m e"
  shows "spaced (pre @ m # post)"
proof (cases "m = e")
  case True
  with sp show ?thesis by simp
next
  case False
  have te: "teams m = teams e" and lo: "datetime e \<le> datetime m" and hi: "datetime m - datetime e < 4 * DAY_US"
    using dup bd by (auto simp: same_fixture_window bounded_by_def)
  have far_pre: "far_apart x m \<and> far_apart m x" if "x \<in> set pre" "teams x = teams m" for x
  proof -
    have "datetime x \<le> datetime m" using bd that(1) by (simp add: bounded_by_def)
    moreover have "\<not> same_fixture m x" using pre that(1) by blast
    ultimately show ?thesis using that(2) by (auto simp: same_fixture_window far_apart_def)
  qed
  have far_post: "far_apart x m \<and> far_apart m x" if "x \<in> set post" "teams x = teams m" for x
  proof -
    have "x \<noteq> e" using sp that(1) by (auto simp: spaced_def)
    then have "far_apart x e" using sp that te by (auto simp: spaced_def)
    moreover have "datetime x \<le> datetime m" using bd that(1) by (simp add: bounded_by_def)
    ultimately show ?thesis using lo hi by (auto simp: far_apart_def DAY_US_def)
  qed
  have "m \<notin> set pre" using pre same_fixture_refl by blast
  moreover have "m \<notin> set post"
  proof
    assume "m \<in> set post"
    then have "far_apart m m" using far_post by blast
    then show False by (simp add: far_apart_def DAY_US_def)
  qed
  ultimately show ?thesis using sp far_pre far_post unfolding spaced_def
    by (auto)
qed

lemma dedup_step_spaced:
  assumes "spaced u" "bounded_by (datetime m) u"
  shows "spaced (dedup_step u m) \<and> bounded_by (datetime m) (dedup_step u m)"
proof (cases "find_duplicate m u")
  case None
  then have "dedup_step u m = u @ [m]" by (simp add: dedup_step_def)
  moreover have "spaced (u @ [m])" using spaced_append_new assms None by (simp add: find_duplicate_None)
  ultimately show ?thesis using assms(2) by (simp add: bounded_by_def)
next
  case (Some u')
  from find_duplicate_Some[OF Some] obtain pre e post where
    u: "u = pre @ e # post" and pre: "\<forall>x\<in>set pre. \<not> same_fixture m x" and dup: "same_fixture m e"
    and u': "u' = pre @ keep_or_replace m e # post" by blast
  have step: "dedup_step u m = u'" using Some by (simp add: dedup_step_def)
  show ?thesis
  proof (cases "keep_or_replace m e = m")
    case True
    then have "u' = pre @ m # post" using u' by simp
    moreover have "spaced (pre @ m # post)" using spaced_replace assms pre dup unfolding u by blast
    ultimately show ?thesis using step assms(2) u by (auto simp: bounded_by_def)
  next
    case False
    then have "u' = u" using keep_or_replace_cases[of m e] u u' by auto
    then show ?thesis using step assms by simp
  qed
qed

lemma bounded_by_mono: "bounded_by t u \<Longrightarrow> t \<le> t' \<Longrightarrow> bounded_by t' u"
  by (auto simp: bounded_by_def)

lemma foldl_dedup_step_spaced:
  "spaced u \<Longrightarrow> sorted (map datetime xs) \<Longrightarrow> \<forall>x\<in>set xs. bounded_by (datetime x) u \<Longrightarrow>
     spaced (foldl dedup_step u xs)"
proof (induction xs arbitrary: u)
  case Nil
  then show ?case by simp
next
  case (Cons m xs)
  have 1: "spaced (dedup_step u m)" "bounded_by (datetime m) (dedup_step u m)"
    using dedup_step_spaced[of u m] Cons.prems by auto
  have "\<forall>x\<in>set xs. bounded_by (datetime x) (dedup_step u m)"
    using 1(2) Cons.prems(2) by (auto intro: bounded_by_mono)
  then show ?case using Cons.IH[OF 1(1)] Cons.prems(2) by simp
qed

lemma spaced_sort_key: "spaced (sort_key f u) = spaced u"
  by (simp add: spaced_def)

lemma deduplicate_matches_spaced: "spaced (deduplicate_matches ms)"
proof -
  have "spaced (foldl dedup_step [] (sort_key datetime ms))"
    by (rule foldl_dedup_step_spaced) (simp_all add: spaced_def bounded_by_def)
  then show ?thesis by (simp add: deduplicate_matches_def Let_def spaced_sort_key)
qed


lemma teams_eq_iff:
  "teams a = teams b \<longleftrightarrow>
     (home_team a = home_team b \<and> away_team a = away_team b) \<or>
     (home_team a = away_team b \<and> away_team a = home_team b)"
  by (auto simp: teams_def)

lemma far_apart_not_same: "far_apart m e \<Longrightarrow> \<not> same_fixture m e"
  by (auto simp: far_apart_def same_fixture_window DAY_US_def)

lemma foldl_dedup_step_spaced_id:
  "spaced (pre @ xs) \<Longrightarrow> foldl dedup_step pre xs = pre @ xs"
proof (induction xs arbitrary: pre)
  case Nil
  then show ?case by simp
next
  case (Cons m xs)
  have "\<not> same_fixture m e" if "e \<in> set pre" for e
  proof (cases "teams m = teams e")
    case True
    have "m \<noteq> e" using Cons.prems that by (auto simp: spaced_def)
    then have "far_apart m e" using Cons.prems that True by (auto simp: spaced_def)
    then show ?thesis by (rule far_apart_not_same)
  next
    case False
    then show ?thesis by (simp add: same_fixture_def)
  qed
  then have "find_duplicate m pre = None"
    by (simp add: find_duplicate_None)
  then have "dedup_step pre m = pre @ [m]"
    by (simp add: dedup_step_def)
  moreover have "spaced ((pre @ [m]) @ xs)" using Cons.prems by simp
  ultimately show ?case using Cons.IH[of "pre @ [m]"] by simp
qed

text \<open>
  Claim C4: \<^verbatim>\<open>deduplicate_matches\<close> is idempotent: applied to its own output it
  returns that output.
\<close>

theorem deduplicate_matches_idempotent:
  "deduplicate_matches (deduplicate_matches all_matches) = deduplicate_matches all_matches"
proof -
  let ?out = "deduplicate_matches all_matches"
  have srt: "sort_key datetime ?out = ?out"
    by (rule sort_key_id_if_sorted) (simp add: deduplicate_matches_def Let_def)
  have "foldl dedup_step [] ?out = ?out"
    using foldl_dedup_step_spaced_id[of "[]" ?out] deduplicate_matches_spaced by simp
  then have "deduplicate_matches ?out = sort_key datetime ?out"
    using srt by (simp add: deduplicate_matches_def[of ?out] Let_def)
  then show ?thesis using srt by simp
qed

text \<open>
  Claim C2: in the list returned by \<^verbatim>\<open>deduplicate_matches\<close>, no two records at
  different positions have the same unordered pair of team names and kickoffs at most
  three days apart. This holds for every pair of positions, after any replacement.
\<close>

theorem deduplicate_matches_no_close_pair:
  assumes "i < length (deduplicate_matches all_matches)"
    and "j < length (deduplicate_matches all_matches)"
    and "i \<noteq> j"
    and "teams (deduplicate_matches all_matches ! i) = teams (deduplicate_matches all_matches ! j)"
  shows "3 * DAY_US < \<bar>datetime (deduplicate_matches all_matches ! i) - datetime (deduplicate_matches all_matches ! j)\<bar>"
proof -
  let ?out = "deduplicate_matches all_matches"
  have sp: "spaced ?out" by (rule deduplicate_matches_spaced)
  then have "?out ! i \<noteq> ?out ! j"
    using assms(1-3) by (simp add: spaced_def nth_eq_iff_index_eq)
  then have "far_apart (?out ! i) (?out ! j)"
    using sp assms(1,2,4) by (simp add: spaced_def)
  then show ?thesis by (simp add: far_apart_def DAY_US_def)
qed


theorem deduplicate_matches_no_close_pair_witness:
  "deduplicate_matches [return_derby, derby_by_hapoel, derby_by_beitar]
     = [derby_by_beitar, return_derby]
   \<and> teams derby_by_beitar = teams return_derby
   \<and> 3 * DAY_US < \<bar>datetime derby_by_beitar - datetime return_derby\<bar>"
proof -
  have out: "deduplicate_matches [return_derby, derby_by_hapoel, derby_by_beitar]
               = [derby_by_beitar, return_derby]"
    by code_simp
  have same: "teams derby_by_beitar = teams return_derby"
    by code_simp
  show ?thesis
    using deduplicate_matches_no_close_pair
            [of 0 "[return_derby, derby_by_hapoel, derby_by_beitar]" 1]
    unfolding out using same by simp
qed









lemma find_duplicate_set:
  assumes "find_duplicate m u = Some u'"
  shows "set u' \<subseteq> insert m (set u)"
proof -
  from find_duplicate_Some[OF assms] obtain pre e post where
    "u = pre @ e # post" "u' = pre @ keep_or_replace m e # post" by blast
  then show ?thesis using keep_or_replace_cases[of m e] by auto
qed

lemma dedup_step_set: "set (dedup_step u m) \<subseteq> insert m (set u)"
  using find_duplicate_set[of m u] by (auto simp: dedup_step_def split: option.splits)

lemma foldl_dedup_step_set: "set (foldl dedup_step u xs) \<subseteq> set u \<union> set xs"
proof (induction xs arbitrary: u)
  case Nil
  then show ?case by simp
next
  case (Cons m xs)
  show ?case using Cons.IH[of "dedup_step u m"] dedup_step_set[of u m] by auto
qed

lemma deduplicate_matches_subset: "set (deduplicate_matches ms) \<subseteq> set ms"
  using foldl_dedup_step_set[of "[]" "sort_key datetime ms"]
  by (simp add: deduplicate_matches_def Let_def)

lemma unmatched_mono: "unmatched x ms \<Longrightarrow> set ms' \<subseteq> set ms \<Longrightarrow> unmatched x ms'"
  by (auto simp: unmatched_def)

lemma unmatched_iff_far_apart:
  "unmatched x ms \<longleftrightarrow> (\<forall>y\<in>set ms. y \<noteq> x \<and> teams y = teams x \<longrightarrow> far_apart x y)"
  unfolding unmatched_def same_fixture_window far_apart_def DAY_US_def by (auto; force)

lemma find_duplicate_keeps_unmatched:
  assumes "find_duplicate m u = Some u'" "x \<in> set u" "m \<noteq> x \<longrightarrow> \<not> same_fixture m x"
  shows "x \<in> set u'"
proof -
  from find_duplicate_Some[OF assms(1)] obtain pre e post where
    u: "u = pre @ e # post" and dup: "same_fixture m e"
    and u': "u' = pre @ keep_or_replace m e # post" by blast
  show ?thesis
  proof (cases "x = e")
    case True
    then have "m = x" using dup assms(3) by auto
    then show ?thesis using u' True keep_or_replace_cases[of m e] by auto
  next
    case False
    then show ?thesis using assms(2) u u' by auto
  qed
qed

lemma dedup_step_keeps_unmatched:
  assumes "unmatched x (m # u)" "x \<in> set u \<or> x = m"
  shows "x \<in> set (dedup_step u m)"
proof (cases "find_duplicate m u")
  case None
  then show ?thesis using assms(2) by (auto simp: dedup_step_def)
next
  case (Some u')
  show ?thesis
  proof (cases "x \<in> set u")
    case True
    have "m \<noteq> x \<longrightarrow> \<not> same_fixture m x" using assms(1) by (simp add: unmatched_def)
    from find_duplicate_keeps_unmatched[OF Some True this] show ?thesis
      using Some by (simp add: dedup_step_def)
  next
    case False
    then have xm: "x = m" using assms(2) by simp
    from find_duplicate_Some[OF Some] obtain pre e post where
      u: "u = pre @ e # post" and dup: "same_fixture m e" by blast
    have "e \<in> set u" "e \<noteq> x" using u False by auto
    then have "\<not> same_fixture x e" using assms(1) by (simp add: unmatched_def)
    then show ?thesis using dup xm by simp
  qed
qed

lemma foldl_dedup_step_keeps_unmatched:
  "unmatched x (u @ xs) \<Longrightarrow> x \<in> set u \<or> x \<in> set xs \<Longrightarrow> x \<in> set (foldl dedup_step u xs)"
proof (induction xs arbitrary: u)
  case Nil
  then show ?case by simp
next
  case (Cons m xs)
  have 1: "unmatched x (dedup_step u m @ xs)"
    using Cons.prems(1) dedup_step_set[of u m] by (auto intro!: unmatched_mono[of x "u @ m # xs"])
  have 2: "x \<in> set (dedup_step u m) \<or> x \<in> set xs"
  proof (cases "x \<in> set xs")
    case True
    then show ?thesis by simp
  next
    case False
    then have "x \<in> set u \<or> x = m" using Cons.prems(2) by auto
    moreover have "unmatched x (m # u)" using Cons.prems(1) by (auto intro: unmatched_mono)
    ultimately show ?thesis using dedup_step_keeps_unmatched by blast
  qed
  show ?case using Cons.IH[OF 1 2] by simp
qed

lemma deduplicate_matches_keeps:
  assumes "x \<in> set ms" "unmatched x ms"
  shows "x \<in> set (deduplicate_matches ms)"
proof -
  have "unmatched x ([] @ sort_key datetime ms)" using assms(2) by (auto intro: unmatched_mono)
  then have "x \<in> set (foldl dedup_step [] (sort_key datetime ms))"
    using assms(1) by (intro foldl_dedup_step_keeps_unmatched) simp_all
  then show ?thesis by (simp add: deduplicate_matches_def Let_def)
qed

text \<open>
  Claim C10, as amended: an input record appears in the output whenever every other
  record of the input either has a different sorted name pair or has a kickoff at least
  four days away from it, which is when the test of line 225 fails between them in both
  directions. In particular, of an input of two records whose sorted name pairs differ
  in any character, both appear in the output however close their kickoffs are. Every
  record of the output is one of the input records, unmodified.
\<close>

theorem deduplicate_matches_keeps_unmatched:
  "set (deduplicate_matches all_matches) \<subseteq> set all_matches
   \<and> (x \<in> set all_matches
        \<and> (\<forall>y\<in>set all_matches. y \<noteq> x \<longrightarrow> teams y \<noteq> teams x \<or> far_apart x y)
      \<longrightarrow> x \<in> set (deduplicate_matches all_matches))
   \<and> (teams a \<noteq> teams b \<longrightarrow> set (deduplicate_matches [a, b]) = {a, b})"
proof -
  have keep: "x \<in> set (deduplicate_matches all_matches)"
    if "x \<in> set all_matches"
      "\<forall>y\<in>set all_matches. y \<noteq> x \<longrightarrow> teams y \<noteq> teams x \<or> far_apart x y"
    using that deduplicate_matches_keeps[of x all_matches]
    by (auto simp: unmatched_iff_far_apart)
  have two: "set (deduplicate_matches [a, b]) = {a, b}" if "teams a \<noteq> teams b"
  proof -
    have "unmatched a [a, b]" "unmatched b [a, b]"
      using that by (auto simp: unmatched_def same_fixture_def)
    then have "a \<in> set (deduplicate_matches [a, b])" "b \<in> set (deduplicate_matches [a, b])"
      using deduplicate_matches_keeps by simp_all
    then show ?thesis using deduplicate_matches_subset[of "[a, b]"] by auto
  qed
  show ?thesis using keep two deduplicate_matches_subset by blast
qed

theorem deduplicate_matches_keeps_unmatched_witness:
  "return_derby \<in> set [derby_by_beitar, derby_by_hapoel, return_derby]
   \<and> teams derby_by_hapoel = teams return_derby \<and> far_apart return_derby derby_by_hapoel
   \<and> teams derby_by_beitar = teams return_derby \<and> far_apart return_derby derby_by_beitar
   \<and> return_derby \<in> set (deduplicate_matches [derby_by_beitar, derby_by_hapoel, return_derby])
   \<and> teams derby_by_beitar \<noteq> teams other_match
   \<and> set (deduplicate_matches [derby_by_beitar, other_match]) = {derby_by_beitar, other_match}"
proof -
  have far: "teams derby_by_hapoel = teams return_derby \<and> far_apart return_derby derby_by_hapoel
      \<and> teams derby_by_beitar = teams return_derby \<and> far_apart return_derby derby_by_beitar"
    by code_simp
  have diff: "teams derby_by_beitar \<noteq> teams other_match"
    by code_simp
  show ?thesis
    using deduplicate_matches_keeps_unmatched
            [of "[derby_by_beitar, derby_by_hapoel, return_derby]" return_derby
                derby_by_beitar other_match]
          far diff
    by simp
qed

text \<open>
  The claim as it is worded fails: the two records below have different sorted name
  pairs, and the first of them is dropped as a duplicate of a third record.
\<close>

theorem differing_pair_dropped_counterexample:
  "derby_by_hapoel \<in> set [derby_by_beitar, derby_by_hapoel, other_match]
   \<and> other_match \<in> set [derby_by_beitar, derby_by_hapoel, other_match]
   \<and> teams derby_by_hapoel \<noteq> teams other_match
   \<and> derby_by_hapoel \<notin> set (deduplicate_matches [derby_by_beitar, derby_by_hapoel, other_match])"
  by code_simp

text \<open>
  Claim C9: for every input list, the list returned by \<^verbatim>\<open>deduplicate_matches\<close> is
  sorted in ascending order of the kickoff timestamp.
\<close>

theorem deduplicate_matches_sorted:
  "sorted (map datetime (deduplicate_matches all_matches))"
  by (simp add: deduplicate_matches_def Let_def)

section \<open>Properties of the parsers\<close>






lemma and_then_Inr: "and_then r f = Inr v \<longleftrightarrow> (\<exists>x. r = Inr x \<and> f x = Inr v)"
  by (cases r) (simp_all add: and_then_def)










lemma datetime_new_fields:
  assumes "datetime_new y mo d h mi = Inr t"
  shows "hour_of t = h \<and> minute_of t = mi"
proof -
  define k where "k = ymd2ord y mo d - 1"
  define x where "x = k * 24 + h"
  have h: "0 \<le> h" "h \<le> 23" and mi: "0 \<le> mi" "mi \<le> 59"
    and t: "t = (x * 60 + mi) * 60000000"
    using assms by (auto simp: datetime_new_def x_def k_def split: if_splits)
  have m: "t div 60000000 = x * 60 + mi" using t by simp
  have "t div 3600000000 = (t div 60000000) div 60"
    by (simp add: zdiv_zmult2_eq[symmetric])
  also have "\<dots> = x" using m mi by simp
  finally have "hour_of t = x mod 24" by (simp add: hour_of_def)
  then have "hour_of t = h" using h by (simp add: x_def)
  moreover have "minute_of t = mi" using m mi by (simp add: minute_of_def)
  ultimately show ?thesis by simp
qed

lemma beitar_kickoff_fields:
  assumes "beitar_kickoff date_part time_part = Inr t" "int_pair time_part = Inr hm"
  shows "(hour_of t, minute_of t) = tbd_default hm"
proof -
  obtain hh mm where hm: "tbd_default hm = (hh, mm)" by (cases "tbd_default hm")
  with assms obtain y mo d where "datetime_new y mo d hh mm = Inr t"
    by (auto simp: beitar_kickoff_def beitar_time_def and_then_Inr split: prod.splits)
  from datetime_new_fields[OF this] hm show ?thesis by simp
qed

lemma hapoel_kickoff_fields:
  assumes "hapoel_kickoff date_str time_str = Inr t" "hapoel_time time_str = Inr hm"
  shows "(hour_of t, minute_of t) = hm"
proof -
  obtain hh mm where hm: "hm = (hh, mm)" by (cases hm)
  with assms obtain y mo d where "datetime_new y mo d hh mm = Inr t"
    by (auto simp: hapoel_kickoff_def and_then_Inr split: prod.splits)
  from datetime_new_fields[OF this] hm show ?thesis by simp
qed

lemma beitar_item_kickoff:
  assumes "beitar_item now item = Inr (Some m)"
    and "date_search (text_or_empty (game_info item)) = Some (date_part, time_part)"
  shows "beitar_kickoff date_part time_part = Inr (datetime m)"
  using assms
  by (auto simp: beitar_item_def and_then_Inr Let_def split: option.splits if_splits)

lemma hapoel_row_kickoff:
  assumes "hapoel_row now lines start_idx i = Inr (Some m)"
  shows "hapoel_kickoff (take 10 (lines ! i)) (slot (walk_back lines start_idx i []) 4) = Inr (datetime m)"
  using assms
  by (auto simp: hapoel_row_def and_then_Inr Let_def split: if_splits)

text \<open>
  Claim C5: in both parsers a parsed kickoff hour below 10 is replaced, together with its
  minute, by the default 20:30, and a parsed hour of 10 or more is left unchanged with
  its minute; this is the time of day of the kickoff of the fixture that is emitted. In
  particular an input time with hour 01 yields the default kickoff time.
\<close>

theorem tbd_time_normalization:
  "(int_pair time_part = Inr (h, mi) \<longrightarrow>
      beitar_time time_part = Inr (if h < 10 then (20, 30) else (h, mi)))
   \<and> (time_str \<noteq> [] \<and> match_atoms RE_TIME time_str \<noteq> None \<and> int_pair time_str = Inr (h', mi') \<longrightarrow>
      hapoel_time time_str = Inr (if h' < 10 then (20, 30) else (h', mi')))
   \<and> (beitar_item now item = Inr (Some m)
        \<and> date_search (text_or_empty (game_info item)) = Some (date_part, time_part)
        \<and> int_pair time_part = Inr (h, mi) \<longrightarrow>
      (hour_of (datetime m), minute_of (datetime m)) = (if h < 10 then (20, 30) else (h, mi)))
   \<and> (hapoel_row now' lines start_idx i = Inr (Some m')
        \<and> time_str = slot (walk_back lines start_idx i []) 4
        \<and> time_str \<noteq> [] \<and> match_atoms RE_TIME time_str \<noteq> None
        \<and> int_pair time_str = Inr (h', mi') \<longrightarrow>
      (hour_of (datetime m'), minute_of (datetime m')) = (if h' < 10 then (20, 30) else (h', mi')))"
proof -
  have a: "beitar_time time_part = Inr (if h < 10 then (20, 30) else (h, mi))"
    if "int_pair time_part = Inr (h, mi)"
    using that
    by (simp add: beitar_time_def and_then_def tbd_default_def DEFAULT_HOUR_def DEFAULT_MINUTE_def)
  have b: "hapoel_time time_str = Inr (if h' < 10 then (20, 30) else (h', mi'))"
    if "time_str \<noteq> []" "match_atoms RE_TIME time_str \<noteq> None" "int_pair time_str = Inr (h', mi')"
    using that
    by (simp add: hapoel_time_def and_then_def tbd_default_def DEFAULT_HOUR_def DEFAULT_MINUTE_def)
  have c: "(hour_of (datetime m), minute_of (datetime m)) = (if h < 10 then (20, 30) else (h, mi))"
    if "beitar_item now item = Inr (Some m)"
      "date_search (text_or_empty (game_info item)) = Some (date_part, time_part)"
      "int_pair time_part = Inr (h, mi)"
    using beitar_kickoff_fields[OF beitar_item_kickoff[OF that(1,2)] that(3)]
    by (simp add: tbd_default_def DEFAULT_HOUR_def DEFAULT_MINUTE_def)
  have d: "(hour_of (datetime m'), minute_of (datetime m')) = (if h' < 10 then (20, 30) else (h', mi'))"
    if "hapoel_row now' lines start_idx i = Inr (Some m')"
      "time_str = slot (walk_back lines start_idx i []) 4"
      "time_str \<noteq> []" "match_atoms RE_TIME time_str \<noteq> None"
      "int_pair time_str = Inr (h', mi')"
    using hapoel_kickoff_fields[OF hapoel_row_kickoff[OF that(1)], of "if h' < 10 then (20, 30) else (h', mi')"]
      b[OF that(3,4,5)] that(2)
    by simp
  show ?thesis using a b c d by blast
qed

theorem tbd_time_normalization_witness:
  "int_pair (ascii ''01:59'') = Inr (1, 59)
   \<and> beitar_time (ascii ''01:59'') = Inr (20, 30)
   \<and> hapoel_time (ascii ''01:59'') = Inr (20, 30)
   \<and> beitar_item 0 derby_item_tbd = Inr (Some (derby_fixture\<lparr>datetime := datetime tbd_fixture\<rparr>))
   \<and> hapoel_row 0 hapoel_page_tbd 0 5 = Inr (Some tbd_fixture)
   \<and> (hour_of (datetime tbd_fixture), minute_of (datetime tbd_fixture)) = (20, 30)"
proof -
  have p: "int_pair (ascii ''01:59'') = Inr (1, 59)"
    by code_simp
  have a: "beitar_item 0 derby_item_tbd = Inr (Some (derby_fixture\<lparr>datetime := datetime tbd_fixture\<rparr>))"
    by code_simp
  have s: "date_search (text_or_empty (game_info derby_item_tbd)) = Some (ascii ''01/01/30'', ascii ''01:59'')"
    by code_simp
  have b: "hapoel_row 0 hapoel_page_tbd 0 5 = Inr (Some tbd_fixture)"
    by code_simp
  have w: "ascii ''01:59'' = slot (walk_back hapoel_page_tbd 0 5 []) 4"
    by code_simp
  have r: "ascii ''01:59'' \<noteq> [] \<and> match_atoms RE_TIME (ascii ''01:59'') \<noteq> None"
    by code_simp
  show ?thesis
    using tbd_time_normalization
            [of "ascii ''01:59''" 1 59 "ascii ''01:59''" 1 59 0 derby_item_tbd
                "derby_fixture\<lparr>datetime := datetime tbd_fixture\<rparr>" "ascii ''01/01/30''"
                0 hapoel_page_tbd 0 5 tbd_fixture]
          p a s b w r
    by simp
qed

lemma hour_19_kept_example:
  "beitar_time (ascii ''19:30'') = Inr (19, 30) \<and> hapoel_time (ascii ''19:30'') = Inr (19, 30)
   \<and> (hour_of kickoff_2030, minute_of kickoff_2030) = (19, 30)"
  by code_simp

text \<open>
  Claim C6: a candidate with the Beitar keyword in one team name and the Hapoel Jerusalem
  keyword in the other passes the inclusion test of both parsers in either home/away
  assignment, for Parser B whatever the venue line says; such a candidate with a kickoff
  that is not before the clock reading is emitted.
\<close>

theorem derby_inclusion:
  assumes "(contains BEITAR_KW home_name \<and> contains HAPOEL_JLM_KW away_name) \<or>
           (contains HAPOEL_JLM_KW home_name \<and> contains BEITAR_KW away_name)"
  shows "beitar_included home_name away_name
   \<and> hapoel_included home_name away_name venue_t
   \<and> (teams_names item = Some td
        \<and> text_or_empty (home td) = home_name \<and> text_or_empty (away td) = away_name
        \<and> date_search (text_or_empty (game_info item)) = Some (date_part, time_part)
        \<and> beitar_kickoff date_part time_part = Inr t \<and> now \<le> t \<longrightarrow>
      beitar_item now item =
        Inr (Some \<lparr>home_team = home_name, away_team = away_name, datetime = t,
                   venue = ascii ''Teddy Stadium'', source = ascii ''beitar''\<rparr>))
   \<and> (slot (walk_back lines start_idx i []) 1 = home_name
        \<and> slot (walk_back lines start_idx i []) 2 = away_name
        \<and> slot (walk_back lines start_idx i []) 3 = venue_t
        \<and> hapoel_kickoff (take 10 (lines ! i)) (slot (walk_back lines start_idx i []) 4) = Inr t'
        \<and> now' \<le> t' \<longrightarrow>
      hapoel_row now' lines start_idx i =
        Inr (Some \<lparr>home_team = home_name, away_team = away_name, datetime = t',
                   venue = ascii ''Teddy Stadium'', source = ascii ''hapoel''\<rparr>))"
proof -
  have derby: "is_derby home_name away_name" using assms by (simp add: is_derby_def)
  then have a: "beitar_included home_name away_name"
    by (simp add: beitar_included_def Let_def)
  have b: "hapoel_included home_name away_name v" for v
    using derby by (simp add: hapoel_included_def Let_def)
  have c: "beitar_item now item =
        Inr (Some \<lparr>home_team = home_name, away_team = away_name, datetime = t,
                   venue = ascii ''Teddy Stadium'', source = ascii ''beitar''\<rparr>)"
    if "teams_names item = Some td" "text_or_empty (home td) = home_name"
      "text_or_empty (away td) = away_name"
      "date_search (text_or_empty (game_info item)) = Some (date_part, time_part)"
      "beitar_kickoff date_part time_part = Inr t" "now \<le> t"
    using that a by (simp add: beitar_item_def Let_def and_then_def)
  have d: "hapoel_row now' lines start_idx i =
        Inr (Some \<lparr>home_team = home_name, away_team = away_name, datetime = t',
                   venue = ascii ''Teddy Stadium'', source = ascii ''hapoel''\<rparr>)"
    if "slot (walk_back lines start_idx i []) 1 = home_name"
      "slot (walk_back lines start_idx i []) 2 = away_name"
      "slot (walk_back lines start_idx i []) 3 = venue_t"
      "hapoel_kickoff (take 10 (lines ! i)) (slot (walk_back lines start_idx i []) 4) = Inr t'"
      "now' \<le> t'"
    using that b[of venue_t] by (simp add: hapoel_row_def Let_def and_then_def)
  show ?thesis using a b c d by blast
qed

theorem derby_inclusion_witness:
  "contains HAPOEL_JLM_KW HAPOEL_JLM_KW \<and> contains BEITAR_KW BEITAR_KW
   \<and> \<not> contains TEDDY_KW (ascii ''Bloomfield'')
   \<and> beitar_included HAPOEL_JLM_KW BEITAR_KW
   \<and> hapoel_included HAPOEL_JLM_KW BEITAR_KW (ascii ''Bloomfield'')
   \<and> beitar_item 0 derby_item = Inr (Some derby_fixture)
   \<and> hapoel_row 0 hapoel_page 0 15 =
        Inr (Some \<lparr>home_team = HAPOEL_JLM_KW, away_team = BEITAR_KW,
                   datetime = kickoff_2030 + 7 * DAY_US,
                   venue = ascii ''Teddy Stadium'', source = ascii ''hapoel''\<rparr>)"
proof -
  have kw: "contains HAPOEL_JLM_KW HAPOEL_JLM_KW \<and> contains BEITAR_KW BEITAR_KW"
    by code_simp
  have nt: "\<not> contains TEDDY_KW (ascii ''Bloomfield'')"
    by code_simp
  have a: "teams_names derby_item = Some \<lparr>home = Some HAPOEL_JLM_KW, away = Some BEITAR_KW\<rparr>
      \<and> text_or_empty (home \<lparr>home = Some HAPOEL_JLM_KW, away = Some BEITAR_KW\<rparr>) = HAPOEL_JLM_KW
      \<and> text_or_empty (away \<lparr>home = Some HAPOEL_JLM_KW, away = Some BEITAR_KW\<rparr>) = BEITAR_KW
      \<and> date_search (text_or_empty (game_info derby_item)) = Some (ascii ''01/01/30'', ascii ''19:30'')
      \<and> beitar_kickoff (ascii ''01/01/30'') (ascii ''19:30'') = Inr kickoff_2030
      \<and> 0 \<le> kickoff_2030"
    by code_simp
  have b: "slot (walk_back hapoel_page 0 15 []) 1 = HAPOEL_JLM_KW
      \<and> slot (walk_back hapoel_page 0 15 []) 2 = BEITAR_KW
      \<and> slot (walk_back hapoel_page 0 15 []) 3 = ascii ''Bloomfield''
      \<and> hapoel_kickoff (take 10 (hapoel_page ! 15)) (slot (walk_back hapoel_page 0 15 []) 4)
            = Inr (kickoff_2030 + 7 * DAY_US)
      \<and> 0 \<le> kickoff_2030 + 7 * DAY_US"
    by code_simp
  have f: "derby_fixture = \<lparr>home_team = HAPOEL_JLM_KW, away_team = BEITAR_KW,
      datetime = kickoff_2030, venue = ascii ''Teddy Stadium'', source = ascii ''beitar''\<rparr>"
    by (simp add: derby_fixture_def)
  show ?thesis
    using derby_inclusion
            [of HAPOEL_JLM_KW BEITAR_KW "ascii ''Bloomfield''" derby_item
                "\<lparr>home = Some HAPOEL_JLM_KW, away = Some BEITAR_KW\<rparr>"
                "ascii ''01/01/30''" "ascii ''19:30''" kickoff_2030 0
                hapoel_page 0 15 "kickoff_2030 + 7 * DAY_US" 0]
          kw nt a b f
    by simp
qed

lemma index_of_None: "index_of x ls = None \<longleftrightarrow> x \<notin> set ls"
  by (induction ls) auto

text \<open>
  Claim C8: when no line equals the marker of the section of upcoming matches,
  \<^verbatim>\<open>fetch_hapoel_matches\<close> returns the empty list without an exception, and the
  reconciled output is the reconciliation of the fixtures of the Beitar site alone.
\<close>

theorem missing_section_yields_nothing:
  assumes "UPCOMING \<notin> set lines"
  shows "fetch_hapoel_matches now lines = Inr []
   \<and> main_matches now_a items now lines =
       and_then (fetch_beitar_matches now_a items) (\<lambda>beitar. Inr (deduplicate_matches beitar))"
proof -
  have "index_of UPCOMING lines = None" using assms by (simp add: index_of_None)
  then have "fetch_hapoel_matches now lines = Inr []"
    by (simp add: fetch_hapoel_matches_def)
  then show ?thesis by (simp add: main_matches_def and_then_def)
qed

theorem missing_section_yields_nothing_witness:
  "UPCOMING \<notin> set hapoel_page_no_section
   \<and> fetch_hapoel_matches 0 hapoel_page_no_section = Inr []
   \<and> main_matches 0 [derby_item] 0 hapoel_page_no_section = Inr [derby_fixture]"
proof -
  have a: "UPCOMING \<notin> set hapoel_page_no_section"
    by code_simp
  have b: "and_then (fetch_beitar_matches 0 [derby_item]) (\<lambda>beitar. Inr (deduplicate_matches beitar))
             = Inr [derby_fixture]"
    by code_simp
  show ?thesis
    using missing_section_yields_nothing [OF a, of 0 0 "[derby_item]"] a b by simp
qed

text \<open>What Parser B does do with the captured time string: an empty string, or one that
  does not start with \<^verbatim>\<open>HH:MM\<close>, gives the default kickoff time.\<close>

lemma hapoel_time_unmatched:
  "time_str = [] \<or> match_atoms RE_TIME time_str = None \<Longrightarrow>
     hapoel_time time_str = Inr (DEFAULT_HOUR, DEFAULT_MINUTE)"
  by (auto simp: hapoel_time_def and_then_def tbd_default_def DEFAULT_HOUR_def)

text \<open>
  Claim C7 does not hold of the code: the test of line 182 only asks for \<^verbatim>\<open>HH:MM\<close>
  at the start of the captured string, so a time string such as \<^verbatim>\<open>19:30:00\<close> reaches
  the unpacking of line 183, which raises \<^verbatim>\<open>ValueError\<close>.
\<close>

theorem time_with_seconds_raises:
  "slot (walk_back hapoel_page_seconds 0 5 []) 4 = ascii ''19:30:00''
   \<and> fetch_hapoel_matches 0 hapoel_page_seconds = Inl ValueError"
  by code_simp

end
